theory Spec2Isabelle
  imports Main "HOL-Library.Sublist" "HOL-Library.Multiset"
begin

section \<open>Strings\<close>

text \<open>
  Python strings are modelled as \<open>string\<close>. The program only lowercases them and tests
  substring containment. \<open>str.lower\<close> is modelled on ASCII text: the letters \<open>A\<close> to \<open>Z\<close>
  (codes 65 to 90) move to \<open>a\<close> to \<open>z\<close>, every other character stays.
\<close>

definition lower_chr :: "char \<Rightarrow> char" where
  "lower_chr c =
     (let n = (of_char c :: nat) in if 65 \<le> n \<and> n \<le> 90 then char_of (n + 32) else c)"

definition lower :: "string \<Rightarrow> string" where
  "lower s = map lower_chr s"

text \<open>Python's \<open>q in s\<close> on two strings: \<open>q\<close> occurs in \<open>s\<close> as a contiguous run.\<close>

fun str_in :: "string \<Rightarrow> string \<Rightarrow> bool" where
  "str_in q [] = (q = [])"
| "str_in q (c # cs) = (prefix q (c # cs) \<or> str_in q cs)"



section \<open>Exceptions\<close>

datatype py_error = KeyError | IndexError

text \<open>\<open>d.get(k, default)\<close>, \<open>d[k]\<close> and \<open>xs[i]\<close>; the last two raise.\<close>

definition dict_get :: "'a option \<Rightarrow> 'a \<Rightarrow> 'a" where
  "dict_get v dflt = (case v of None \<Rightarrow> dflt | Some x \<Rightarrow> x)"

definition dict_subscript :: "'a option \<Rightarrow> py_error + 'a" where
  "dict_subscript v = (case v of None \<Rightarrow> Inl KeyError | Some x \<Rightarrow> Inr x)"

definition list_subscript :: "'a list \<Rightarrow> nat \<Rightarrow> py_error + 'a" where
  "list_subscript xs i = (if i < length xs then Inr (xs ! i) else Inl IndexError)"

section \<open>Parsed content and the Content Parser\<close>

text \<open>
  The dictionary that \<open>parse_html\<close> returns and \<open>check_query_presence\<close> reads. It has at
  most the six keys below; a key that is absent from the dictionary is \<open>None\<close>.
\<close>

record parsed_dict =
  title :: "string option"
  meta :: "string option"
  h1 :: "string list option"
  h2 :: "string list option"
  h3 :: "string list option"
  body :: "string option"

definition empty_dict :: parsed_dict where
  "empty_dict = \<lparr>title = None, meta = None, h1 = None, h2 = None, h3 = None, body = None\<rparr>"

text \<open>
  What the program asks of the \<open>BeautifulSoup\<close> object it builds. The HTML parser is a
  library and enters as a parameter \<open>BeautifulSoup :: string \<Rightarrow> soup\<close>.
  \<^item> \<open>find_title\<close>: the text of \<open>soup.find('title')\<close>, \<open>None\<close> when there is no such element;
  \<^item> \<open>find_meta_description\<close>: \<open>None\<close> when no meta tag has \<open>name="description"\<close>, else
    its \<open>content\<close> attribute, itself \<open>None\<close> when the tag has none;
  \<^item> \<open>find_all_h1\<close>, \<open>find_all_h2\<close>, \<open>find_all_h3\<close>: the texts of the elements in document order;
  \<^item> \<open>find_body\<close>: the text of \<open>soup.find('body')\<close>.
\<close>

record soup =
  find_title :: "string option"
  find_meta_description :: "string option option"
  find_all_h1 :: "string list"
  find_all_h2 :: "string list"
  find_all_h3 :: "string list"
  find_body :: "string option"

text \<open>The body of \<open>parse_html\<close> (lines 44 to 55), before the caching decorator.\<close>

definition parse_html_body :: "(string \<Rightarrow> soup) \<Rightarrow> string \<Rightarrow> parsed_dict" where
  "parse_html_body BeautifulSoup html_content =
     (if html_content = [] then empty_dict
      else let sp = BeautifulSoup html_content in
        \<lparr>title = Some (case find_title sp of Some t \<Rightarrow> t | None \<Rightarrow> []),
         meta = Some (case find_meta_description sp of
                        Some m \<Rightarrow> dict_get m []
                      | None \<Rightarrow> []),
         h1 = Some (find_all_h1 sp),
         h2 = Some (find_all_h2 sp),
         h3 = Some (find_all_h3 sp),
         body = Some (case find_body sp of Some t \<Rightarrow> t | None \<Rightarrow> [])\<rparr>)"

text \<open>
  \<open>@st.cache_data\<close> on \<open>parse_html\<close>. The decorator memoises the function on its hashed
  arguments, and an argument whose name starts with an underscore is left out of the key.
  The only argument is \<open>_html_content\<close>, so the key is constant: the store holds at most
  one dictionary, the one of the first call, and every later call returns it.
\<close>

definition parse_html ::
  "(string \<Rightarrow> soup) \<Rightarrow> parsed_dict option \<Rightarrow> string \<Rightarrow> parsed_dict \<times> parsed_dict option" where
  "parse_html BeautifulSoup store html_content =
     (case store of
        Some d \<Rightarrow> (d, store)
      | None \<Rightarrow> (let d = parse_html_body BeautifulSoup html_content in (d, Some d)))"

section \<open>The Presence Matcher\<close>

record presence =
  Title :: bool
  Meta :: bool
  H1 :: bool
  H2_1 :: bool
  H2_2 :: bool
  H3_1 :: bool
  H3_2 :: bool
  Body :: bool

text \<open>
  Lines 64 to 67 share one shape,
  \<^verbatim>\<open>len(parsed_html.get(k, [])) > i and query in parsed_html[k][i].lower()\<close>,
  with \<open>k\<close> either \<open>'h2'\<close> or \<open>'h3'\<close> and \<open>i\<close> either 0 or 1. \<open>and\<close> evaluates its right
  operand only when the left one is true; the right operand subscripts the dictionary
  and the list, and both subscripts can raise.
\<close>

definition heading_at :: "string list option \<Rightarrow> nat \<Rightarrow> string \<Rightarrow> py_error + bool" where
  "heading_at hs i query =
     (if length (dict_get hs []) > i then
        (case dict_subscript hs of
           Inl e \<Rightarrow> Inl e
         | Inr l \<Rightarrow> (case list_subscript l i of
                      Inl e \<Rightarrow> Inl e
                    | Inr h \<Rightarrow> Inr (str_in query (lower h))))
      else Inr False)"

definition check_query_presence :: "parsed_dict \<Rightarrow> string \<Rightarrow> py_error + presence" where
  "check_query_presence parsed_html query0 =
     (let query = lower query0;
          v_title = str_in query (lower (dict_get (title parsed_html) []));
          v_meta = str_in query (lower (dict_get (meta parsed_html) []));
          v_h1 = list_ex (\<lambda>h. str_in query (lower h)) (dict_get (h1 parsed_html) [])
      in case heading_at (h2 parsed_html) 0 query of Inl e \<Rightarrow> Inl e | Inr v_h2_1 \<Rightarrow>
         case heading_at (h2 parsed_html) 1 query of Inl e \<Rightarrow> Inl e | Inr v_h2_2 \<Rightarrow>
         case heading_at (h3 parsed_html) 0 query of Inl e \<Rightarrow> Inl e | Inr v_h3_1 \<Rightarrow>
         case heading_at (h3 parsed_html) 1 query of Inl e \<Rightarrow> Inl e | Inr v_h3_2 \<Rightarrow>
         Inr \<lparr>Title = v_title, Meta = v_meta, H1 = v_h1,
              H2_1 = v_h2_1, H2_2 = v_h2_2, H3_1 = v_h3_1, H3_2 = v_h3_2,
              Body = str_in query (lower (dict_get (body parsed_html) []))\<rparr>)"

text \<open>The sequence of a heading key as the matcher reads it: empty when the key is absent.\<close>

definition headings :: "string list option \<Rightarrow> string list" where
  "headings hs = dict_get hs []"

section \<open>The Query Selector\<close>

text \<open>
  One row of the Search Console table. A data frame is the list of its rows, in order;
  two rows at different positions are different rows even when their values agree.
\<close>

record query_row =
  Query :: string
  Clicks :: int
  Impressions :: int
  Landing_Page :: string

text \<open>
  \<open>df.sort_values(col, ascending=False)\<close> is pandas' code and enters as a parameter:
  the first argument reads the column, the second is the frame. The call in the source
  passes no \<open>kind\<close>, so pandas uses its default, \<open>quicksort\<close>, which its documentation
  does not list among the stable kinds. What the call promises is that the result holds
  the same rows and that the column does not increase along it; the order it gives to
  rows of equal keys is left open here.
\<close>

type_synonym sorter = "(query_row \<Rightarrow> int) \<Rightarrow> query_row list \<Rightarrow> query_row list"

definition sorts_descending :: "sorter \<Rightarrow> bool" where
  "sorts_descending sort_values =
     (\<forall>col df. mset (sort_values col df) = mset df \<and>
                sorted_wrt (\<lambda>a b. col b \<le> col a) (sort_values col df))"

text \<open>A sort that keeps that promise, used for concrete inputs: the stable one.\<close>

definition stable_sort_desc :: sorter where
  "stable_sort_desc col df = sort_key (\<lambda>r. - col r) df"

text \<open>Lines 84 and 85: the rows with clicks, sorted, and the first eight of them.\<close>

definition top_by_clicks :: "sorter \<Rightarrow> query_row list \<Rightarrow> query_row list" where
  "top_by_clicks sort_values grp =
     take 8 (sort_values Clicks (filter (\<lambda>r. Clicks r > 0) grp))"

text \<open>Line 89: \<open>group[~group['Query'].isin(top['Query'])]\<close>.\<close>

definition remaining_queries :: "query_row list \<Rightarrow> query_row list \<Rightarrow> query_row list" where
  "remaining_queries top_rows grp = filter (\<lambda>r. Query r \<notin> set (map Query top_rows)) grp"

text \<open>Line 90, with the slots of line 86.\<close>

definition top_by_impressions :: "sorter \<Rightarrow> query_row list \<Rightarrow> query_row list" where
  "top_by_impressions sort_values grp =
     (let top_rows = top_by_clicks sort_values grp;
          remaining_slots = 10 - int (length top_rows)
      in take (nat remaining_slots) (sort_values Impressions (remaining_queries top_rows grp)))"

definition select_top_queries :: "sorter \<Rightarrow> query_row list \<Rightarrow> query_row list" where
  "select_top_queries sort_values grp =
     (let top_rows = top_by_clicks sort_values grp;
          remaining_slots = 10 - int (length top_rows)
      in if remaining_slots > 0
         then top_rows @ top_by_impressions sort_values grp
         else top_rows)"

section \<open>Branded terms\<close>

text \<open>
  \<open>Series.str.contains(pattern)\<close> searches a regular expression; the regular expression
  engine enters as a parameter \<open>re_search pattern s\<close>. \<open>'|'.join\<close> is \<open>join_bar\<close>.
\<close>

fun join_bar :: "string list \<Rightarrow> string" where
  "join_bar [] = []"
| "join_bar [t] = t"
| "join_bar (t # ts) = t @ ''|'' @ join_bar ts"

definition process_data ::
  "(string \<Rightarrow> string \<Rightarrow> bool) \<Rightarrow> query_row list \<Rightarrow> string list \<Rightarrow> query_row list" where
  "process_data re_search df branded_terms =
     (if df \<noteq> [] then
        (if branded_terms \<noteq> [] then
           (let pattern = join_bar (map lower branded_terms)
            in filter (\<lambda>r. \<not> re_search pattern (lower (Query r))) df)
         else df)
      else [])"

section \<open>The URL Fetcher\<close>

datatype requests_exception = Timeout | ConnectionError | HTTPError | OtherException

record response =
  status_code :: nat
  response_text :: string

text \<open>\<open>requests.get(url, headers=..., timeout=timeout)\<close>: the network, a parameter.\<close>

type_synonym network = "string \<Rightarrow> nat \<Rightarrow> requests_exception + response"

definition raise_for_status :: "response \<Rightarrow> requests_exception + unit" where
  "raise_for_status r =
     (if 400 \<le> status_code r \<and> status_code r < 600 then Inl HTTPError else Inr ())"

text \<open>
  The body of \<open>fetch_html_content\<close> (lines 30 to 39): every exception is caught and the
  function returns \<open>None\<close>; it never raises.
\<close>

definition fetch_html_content_body :: "network \<Rightarrow> string \<Rightarrow> nat \<Rightarrow> string option" where
  "fetch_html_content_body requests_get url timeout =
     (case requests_get url timeout of
        Inl e \<Rightarrow> None
      | Inr r \<Rightarrow> (case raise_for_status r of
                   Inl e \<Rightarrow> None
                 | Inr u \<Rightarrow> Some (response_text r)))"

text \<open>
  \<open>@st.cache_data(ttl=3600)\<close> on \<open>fetch_html_content\<close>. The decorator keys the store on
  the arguments \<open>(url, timeout)\<close>. On a call it returns the stored value when there is one
  younger than the time to live; otherwise it runs the function and stores whatever the
  function returns. It skips the store only when the function raises, and this function
  never does. The state also logs the requests sent to the network.
\<close>

type_synonym fetch_key = "string \<times> nat"

record fetch_state =
  cache :: "fetch_key \<rightharpoonup> (string option \<times> nat)"
  network_calls :: "fetch_key list"

definition cache_lookup :: "nat \<Rightarrow> fetch_state \<Rightarrow> fetch_key \<Rightarrow> nat \<Rightarrow> string option option" where
  "cache_lookup ttl st k now =
     (case cache st k of
        Some (v, stored) \<Rightarrow> if now < stored + ttl then Some v else None
      | None \<Rightarrow> None)"

definition fetch_html_content ::
  "network \<Rightarrow> fetch_state \<Rightarrow> nat \<Rightarrow> string \<Rightarrow> nat \<Rightarrow> string option \<times> fetch_state" where
  "fetch_html_content requests_get st now url timeout =
     (case cache_lookup 3600 st (url, timeout) now of
        Some v \<Rightarrow> (v, st)
      | None \<Rightarrow>
          (let v = fetch_html_content_body requests_get url timeout
           in (v, st\<lparr>cache := (cache st)((url, timeout) \<mapsto> (v, now)),
                     network_calls := network_calls st @ [(url, timeout)]\<rparr>)))"

definition fresh_fetch_state :: fetch_state where
  "fresh_fetch_state = \<lparr>cache = Map.empty, network_calls = []\<rparr>"

section \<open>The loop over completed fetches\<close>

record analysis_record =
  URL :: string
  rec_Query :: string
  rec_Clicks :: int
  rec_Impressions :: int
  rec_presence :: presence

text \<open>Lines 150 to 158: one record per selected row; an exception leaves the loop.\<close>

fun append_results ::
  "string \<Rightarrow> parsed_dict \<Rightarrow> query_row list \<Rightarrow> analysis_record list
     \<Rightarrow> py_error + analysis_record list" where
  "append_results url parsed_html [] results = Inr results"
| "append_results url parsed_html (query_row # rest) results =
     (case check_query_presence parsed_html (Query query_row) of
        Inl e \<Rightarrow> Inl e
      | Inr p \<Rightarrow> append_results url parsed_html rest
                   (results @ [\<lparr>URL = url, rec_Query = Query query_row,
                                rec_Clicks = Clicks query_row,
                                rec_Impressions = Impressions query_row,
                                rec_presence = p\<rparr>]))"

text \<open>
  What the loop of lines 141 to 164 reads and writes: the local list \<open>results\<close>, the
  session's \<open>processed_urls\<close>, the counter \<open>completed\<close> and the store of \<open>parse_html\<close>.
\<close>

record loop_state =
  results :: "analysis_record list"
  processed_urls :: "string set"
  completed :: nat
  parse_store :: "parsed_dict option"

text \<open>
  One iteration, for the completed future of \<open>url\<close> holding \<open>html_content\<close>.
  \<open>if html_content:\<close> is false for \<open>None\<close> and for the empty string.
\<close>

definition process_completion ::
  "sorter \<Rightarrow> (string \<Rightarrow> soup) \<Rightarrow> query_row list \<Rightarrow> loop_state
     \<Rightarrow> string \<times> string option \<Rightarrow> py_error + loop_state" where
  "process_completion sort_values BeautifulSoup df st c =
     (let url = fst c;
          done_url = (\<lambda>s. s\<lparr>completed := completed s + 1,
                             processed_urls := insert url (processed_urls s)\<rparr>)
      in case snd c of
           None \<Rightarrow> Inr (done_url st)
         | Some html_content \<Rightarrow>
             if html_content = [] then Inr (done_url st)
             else
               (let (parsed_html, store) = parse_html BeautifulSoup (parse_store st) html_content;
                    url_group = filter (\<lambda>r. Landing_Page r = url) df;
                    top_queries = select_top_queries sort_values url_group
                in case append_results url parsed_html top_queries (results st) of
                     Inl e \<Rightarrow> Inl e
                   | Inr rs \<Rightarrow> Inr (done_url (st\<lparr>results := rs, parse_store := store\<rparr>))))"

text \<open>
  The loop. \<open>as_completed\<close> yields the futures in the order the network answers; that
  order and the answers are the list \<open>completions\<close>.
\<close>

fun main_loop ::
  "sorter \<Rightarrow> (string \<Rightarrow> soup) \<Rightarrow> query_row list \<Rightarrow> loop_state
     \<Rightarrow> (string \<times> string option) list \<Rightarrow> py_error + loop_state" where
  "main_loop sort_values BeautifulSoup df st [] = Inr st"
| "main_loop sort_values BeautifulSoup df st (c # cs) =
     (case process_completion sort_values BeautifulSoup df st c of
        Inl e \<Rightarrow> Inl e
      | Inr st' \<Rightarrow> main_loop sort_values BeautifulSoup df st' cs)"

section \<open>Concrete inputs\<close>

definition shoes_page :: parsed_dict where
  "shoes_page =
     \<lparr>title = Some ''Best Shoes'', meta = Some [], h1 = Some [],
      h2 = Some [''Running Shoes'', ''Shoe Care''], h3 = Some [], body = Some []\<rparr>"

definition no_soup :: "string \<Rightarrow> soup" where
  "no_soup html =
     \<lparr>find_title = None, find_meta_description = None, find_all_h1 = [],
      find_all_h2 = [], find_all_h3 = [], find_body = None\<rparr>"

definition row_a :: query_row where
  "row_a = \<lparr>Query = ''shoes'', Clicks = 5, Impressions = 10, Landing_Page = ''u''\<rparr>"

definition row_b :: query_row where
  "row_b = \<lparr>Query = ''boots'', Clicks = 5, Impressions = 10, Landing_Page = ''u''\<rparr>"

definition row_c :: query_row where
  "row_c = \<lparr>Query = ''shoes'', Clicks = 0, Impressions = 500, Landing_Page = ''u''\<rparr>"

definition refusing :: network where
  "refusing url timeout = Inl ConnectionError"

definition fresh_loop_state :: loop_state where
  "fresh_loop_state = \<lparr>results = [], processed_urls = {}, completed = 0, parse_store = None\<rparr>"

definition row_d :: query_row where
  "row_d = \<lparr>Query = ''sandals'', Clicks = 0, Impressions = 7, Landing_Page = ''u''\<rparr>"

definition row_w :: query_row where
  "row_w = \<lparr>Query = ''boots'', Clicks = 2, Impressions = 30, Landing_Page = ''w''\<rparr>"

definition answering :: network where
  "answering url timeout = Inr \<lparr>status_code = 200, response_text = ''<title>Best Shoes</title>''\<rparr>"

text \<open>The fetcher's state after one refused request for \<open>u\<close> at time 0.\<close>

definition after_refusal :: fetch_state where
  "after_refusal = snd (fetch_html_content refusing fresh_fetch_state 0 ''u'' 10)"

section \<open>Facts about the model\<close>

subsection \<open>Strings and the matcher\<close>

lemma str_in_iff: "str_in q s \<longleftrightarrow> (\<exists>pre suf. s = pre @ q @ suf)"
proof (induction s)
  case Nil
  then show ?case by auto
next
  case (Cons c cs)
  show ?case
  proof
    assume "str_in q (c # cs)"
    then consider "prefix q (c # cs)" | "str_in q cs" by auto
    then show "\<exists>pre suf. c # cs = pre @ q @ suf"
    proof cases
      case 1
      then obtain suf where "c # cs = q @ suf" by (auto simp: prefix_def)
      then have "c # cs = [] @ q @ suf" by simp
      then show ?thesis by blast
    next
      case 2
      with Cons.IH obtain pre suf where "cs = pre @ q @ suf" by blast
      then have "c # cs = (c # pre) @ q @ suf" by simp
      then show ?thesis by blast
    qed
  next
    assume "\<exists>pre suf. c # cs = pre @ q @ suf"
    then obtain pre suf where e: "c # cs = pre @ q @ suf" by blast
    show "str_in q (c # cs)"
    proof (cases pre)
      case Nil
      with e have "prefix q (c # cs)" by (simp add: prefix_def)
      then show ?thesis by simp
    next
      case (Cons p ps)
      with e have "cs = ps @ q @ suf" by simp
      with Cons.IH have "str_in q cs" by blast
      then show ?thesis by simp
    qed
  qed
qed

lemma str_in_empty: "str_in [] s"
  by (induction s) auto

lemma ex_in_set: "(\<exists>h. h \<in> set xs) = (xs \<noteq> [])"
  by (cases xs) auto

lemma heading_at_ok:
  "heading_at hs i q = Inr (i < length (headings hs) \<and> str_in q (lower (headings hs ! i)))"
  by (cases hs) (auto simp: heading_at_def headings_def dict_get_def dict_subscript_def list_subscript_def)

lemma cqp_total:
  "check_query_presence P Q = Inr
     \<lparr>Title = str_in (lower Q) (lower (dict_get (title P) [])),
      Meta = str_in (lower Q) (lower (dict_get (meta P) [])),
      H1 = (\<exists>h \<in> set (headings (h1 P)). str_in (lower Q) (lower h)),
      H2_1 = (0 < length (headings (h2 P)) \<and> str_in (lower Q) (lower (headings (h2 P) ! 0))),
      H2_2 = (1 < length (headings (h2 P)) \<and> str_in (lower Q) (lower (headings (h2 P) ! 1))),
      H3_1 = (0 < length (headings (h3 P)) \<and> str_in (lower Q) (lower (headings (h3 P) ! 0))),
      H3_2 = (1 < length (headings (h3 P)) \<and> str_in (lower Q) (lower (headings (h3 P) ! 1))),
      Body = str_in (lower Q) (lower (dict_get (body P) []))\<rparr>"
  unfolding check_query_presence_def Let_def heading_at_ok
  by (simp add: list_ex_iff headings_def)

lemma check_query_presence_returns: "\<exists>v. check_query_presence P Q = Inr v"
  by (simp add: cqp_total)







lemma lower_Nil: "lower [] = []" by (simp add: lower_def)

subsection \<open>Sorting and selection\<close>

lemma desc_sorted: "sorted_wrt (\<lambda>a b. col b \<le> col a) (sort_key (\<lambda>r. - col r) xs)"
  for col :: "query_row \<Rightarrow> int"
  using sorted_sort_key [of "\<lambda>r. - col r" xs] by (simp add: sorted_map)

lemma stable_sort_desc_sorts: "sorts_descending stable_sort_desc"
  unfolding sorts_descending_def stable_sort_desc_def
  by (intro allI conjI desc_sorted) (simp only: mset_sort)

lemma sorts_descending_mset: "sorts_descending sv \<Longrightarrow> mset (sv col df) = mset df"
  by (simp add: sorts_descending_def)

lemma mset_take_subseteq: "mset (take n xs) \<subseteq># mset xs"
proof -
  have "mset xs = mset (take n xs) + mset (drop n xs)"
    by (metis append_take_drop_id mset_append)
  then show ?thesis by simp
qed

lemma top_by_clicks_length: "length (top_by_clicks sv grp) \<le> 8"
  by (simp add: top_by_clicks_def)

lemma top_by_clicks_mset:
  assumes "sorts_descending sv"
  shows "mset (top_by_clicks sv grp) \<subseteq># filter_mset (\<lambda>r. Clicks r > 0) (mset grp)"
proof -
  have "mset (top_by_clicks sv grp) \<subseteq># mset (sv Clicks (filter (\<lambda>r. Clicks r > 0) grp))"
    unfolding top_by_clicks_def by (rule mset_take_subseteq)
  with assms show ?thesis by (simp add: sorts_descending_mset)
qed

lemma top_by_impressions_length:
  "length (top_by_clicks sv grp) + length (top_by_impressions sv grp) \<le> 10"
  using top_by_clicks_length [of sv grp] by (simp add: top_by_impressions_def Let_def)

lemma top_by_impressions_mset:
  assumes "sorts_descending sv"
  shows "mset (top_by_impressions sv grp)
           \<subseteq># mset (remaining_queries (top_by_clicks sv grp) grp)"
proof -
  let ?rem = "remaining_queries (top_by_clicks sv grp) grp"
  have "mset (top_by_impressions sv grp) \<subseteq># mset (sv Impressions ?rem)"
    unfolding top_by_impressions_def Let_def by (rule mset_take_subseteq)
  with assms show ?thesis by (simp add: sorts_descending_mset)
qed

lemma select_top_queries_split:
  "select_top_queries sv grp = top_by_clicks sv grp @ top_by_impressions sv grp"
  using top_by_clicks_length [of sv grp]
  by (simp add: select_top_queries_def Let_def)

lemma tiers_within_group:
  assumes "sorts_descending sv"
  shows "mset (top_by_clicks sv grp) + mset (top_by_impressions sv grp) \<subseteq># mset grp"
proof -
  let ?top = "top_by_clicks sv grp"
  let ?inq = "\<lambda>r. Query r \<in> set (map Query ?top)"
  have "filter_mset (\<lambda>r. Clicks r > 0) (mset grp) \<subseteq># mset grp"
    by (rule multiset_filter_subset)
  with top_by_clicks_mset [OF assms, of grp] have "mset ?top \<subseteq># mset grp"
    by (rule subset_mset.order_trans)
  then have "filter_mset ?inq (mset ?top) \<subseteq># filter_mset ?inq (mset grp)"
    by (rule multiset_filter_mono)
  moreover have "filter_mset ?inq (mset ?top) = mset ?top"
    by (rule filter_mset_cong [where g = "\<lambda>r. True", simplified]) auto
  ultimately have a: "mset ?top \<subseteq># filter_mset ?inq (mset grp)" by simp
  have b: "mset (top_by_impressions sv grp) \<subseteq># filter_mset (\<lambda>r. \<not> ?inq r) (mset grp)"
    using top_by_impressions_mset [OF assms, of grp] by (simp add: remaining_queries_def)
  have p: "filter_mset ?inq (mset grp) + filter_mset (\<lambda>r. \<not> ?inq r) (mset grp) = mset grp"
    by (rule multiset_partition [symmetric])
  from a b have "mset ?top + mset (top_by_impressions sv grp)
      \<subseteq># filter_mset ?inq (mset grp) + filter_mset (\<lambda>r. \<not> ?inq r) (mset grp)"
    by (rule subset_mset.add_mono)
  then show ?thesis by (simp only: p)
qed

lemma top_by_clicks_a_c: "top_by_clicks stable_sort_desc [row_a, row_c, row_d] = [row_a]"
  by (simp add: top_by_clicks_def stable_sort_desc_def row_a_def row_c_def row_d_def)

subsection \<open>The fetcher and the loop\<close>

lemma after_refusal_eq:
  "fetch_html_content refusing fresh_fetch_state 0 ''u'' 10
     = (None, \<lparr>cache = [(''u'', 10) \<mapsto> (None, 0)], network_calls = [(''u'', 10)]\<rparr>)"
  by (simp add: fetch_html_content_def cache_lookup_def fresh_fetch_state_def
      fetch_html_content_body_def refusing_def)

lemma append_results_ok:
  "\<exists>rs. append_results url P rows res = Inr (res @ rs) \<and> (\<forall>r \<in> set rs. URL r = url)
        \<and> length rs = length rows"
proof (induction rows arbitrary: res)
  case Nil
  then show ?case by simp
next
  case (Cons q rows)
  obtain v where v: "check_query_presence P (Query q) = Inr v"
    using check_query_presence_returns by blast
  let ?r = "\<lparr>URL = url, rec_Query = Query q, rec_Clicks = Clicks q,
              rec_Impressions = Impressions q, rec_presence = v\<rparr>"
  from Cons.IH [of "res @ [?r]"] obtain rs where
    rs: "append_results url P rows (res @ [?r]) = Inr ((res @ [?r]) @ rs)"
        "\<forall>r \<in> set rs. URL r = url" "length rs = length rows"
    by blast
  have "append_results url P (q # rows) res = Inr (res @ (?r # rs))"
    using v rs(1) by simp
  moreover have "\<forall>r \<in> set (?r # rs). URL r = url" using rs(2) by simp
  moreover have "length (?r # rs) = length (q # rows)" using rs(3) by simp
  ultimately show ?case by blast
qed

lemma process_completion_skip:
  assumes "snd c = None \<or> snd c = Some []"
  shows "process_completion sv bs df st c =
           Inr (st\<lparr>completed := completed st + 1,
                    processed_urls := insert (fst c) (processed_urls st)\<rparr>)"
  using assms unfolding process_completion_def Let_def by auto

lemma process_completion_page:
  assumes "snd c = Some html" and "html \<noteq> []"
    and "parse_html bs (parse_store st) html = (P, store)"
    and "append_results (fst c) P
           (select_top_queries sv (filter (\<lambda>r. Landing_Page r = fst c) df)) (results st) = Inr rs'"
  shows "process_completion sv bs df st c =
           Inr (st\<lparr>results := rs', parse_store := store,
                    completed := completed st + 1,
                    processed_urls := insert (fst c) (processed_urls st)\<rparr>)"
  using assms unfolding process_completion_def Let_def by simp

lemma process_completion_ok:
  "\<exists>st' rs. process_completion sv bs df st c = Inr st'
     \<and> processed_urls st' = insert (fst c) (processed_urls st)
     \<and> completed st' = completed st + 1
     \<and> results st' = results st @ rs
     \<and> (\<forall>r \<in> set rs. URL r = fst c)
     \<and> (snd c = None \<longrightarrow> rs = [])"
proof (cases "snd c = None \<or> snd c = Some []")
  case True
  let ?st' = "st\<lparr>completed := completed st + 1,
                  processed_urls := insert (fst c) (processed_urls st)\<rparr>"
  show ?thesis
  proof (intro exI conjI)
    show "process_completion sv bs df st c = Inr ?st'"
      using True by (rule process_completion_skip)
    show "processed_urls ?st' = insert (fst c) (processed_urls st)" by simp
    show "completed ?st' = completed st + 1" by simp
    show "results ?st' = results st @ []" by simp
    show "\<forall>r \<in> set []. URL r = fst c" by simp
    show "snd c = None \<longrightarrow> [] = ([] :: analysis_record list)" by simp
  qed
next
  case False
  then obtain html where h: "snd c = Some html" "html \<noteq> []" by auto
  obtain P store where ps: "parse_html bs (parse_store st) html = (P, store)"
    by (cases "parse_html bs (parse_store st) html")
  let ?rows = "select_top_queries sv (filter (\<lambda>r. Landing_Page r = fst c) df)"
  from append_results_ok [of "fst c" P ?rows "results st"] obtain rs where
    rs: "append_results (fst c) P ?rows (results st) = Inr (results st @ rs)"
        "\<forall>r \<in> set rs. URL r = fst c"
    by blast
  let ?st' = "st\<lparr>results := results st @ rs, parse_store := store,
                  completed := completed st + 1,
                  processed_urls := insert (fst c) (processed_urls st)\<rparr>"
  show ?thesis
  proof (intro exI conjI)
    show "process_completion sv bs df st c = Inr ?st'"
      using h ps rs(1) by (rule process_completion_page)
    show "processed_urls ?st' = insert (fst c) (processed_urls st)" by simp
    show "completed ?st' = completed st + 1" by simp
    show "results ?st' = results st @ rs" by simp
    show "\<forall>r \<in> set rs. URL r = fst c" by (rule rs(2))
    show "snd c = None \<longrightarrow> rs = []" using h by simp
  qed
qed

lemma main_loop_ok:
  "\<exists>st'. main_loop sv bs df st cs = Inr st'
     \<and> processed_urls st' = processed_urls st \<union> fst ` set cs
     \<and> completed st' = completed st + length cs
     \<and> (\<forall>u. (\<forall>c \<in> set cs. fst c = u \<longrightarrow> snd c = None)
            \<longrightarrow> filter (\<lambda>r. URL r = u) (results st') = filter (\<lambda>r. URL r = u) (results st))"
proof (induction cs arbitrary: st)
  case Nil
  show ?case by simp
next
  case (Cons c cs)
  from process_completion_ok [of sv bs df st c] obtain st1 rs where
    s1: "process_completion sv bs df st c = Inr st1"
        "processed_urls st1 = insert (fst c) (processed_urls st)"
        "completed st1 = completed st + 1"
        "results st1 = results st @ rs"
        "\<forall>r \<in> set rs. URL r = fst c"
        "snd c = None \<longrightarrow> rs = []"
    by (elim exE conjE) (rule that)
  from Cons.IH [of st1] obtain st2 where
    s2: "main_loop sv bs df st1 cs = Inr st2"
        "processed_urls st2 = processed_urls st1 \<union> fst ` set cs"
        "completed st2 = completed st1 + length cs"
        "\<forall>u. (\<forall>c \<in> set cs. fst c = u \<longrightarrow> snd c = None)
            \<longrightarrow> filter (\<lambda>r. URL r = u) (results st2) = filter (\<lambda>r. URL r = u) (results st1)"
    by (elim exE conjE) (rule that)
  have keep: "filter (\<lambda>r. URL r = u) (results st2) = filter (\<lambda>r. URL r = u) (results st)"
    if h: "\<forall>d \<in> set (c # cs). fst d = u \<longrightarrow> snd d = None" for u
  proof -
    from h have "\<forall>d \<in> set cs. fst d = u \<longrightarrow> snd d = None" by simp
    with s2(4) have a: "filter (\<lambda>r. URL r = u) (results st2) = filter (\<lambda>r. URL r = u) (results st1)"
      by simp
    have "filter (\<lambda>r. URL r = u) rs = []"
    proof (cases "fst c = u")
      case True
      with h have "snd c = None" by simp
      with s1(6) show ?thesis by simp
    next
      case False
      with s1(5) show ?thesis by (simp add: filter_empty_conv)
    qed
    with a s1(4) show ?thesis by simp
  qed
  show ?case
  proof (intro exI conjI allI impI)
    show "main_loop sv bs df st (c # cs) = Inr st2" using s1(1) s2(1) by simp
    show "processed_urls st2 = processed_urls st \<union> fst ` set (c # cs)"
      using s1(2) s2(2) by simp
    show "completed st2 = completed st + length (c # cs)"
      using s1(3) s2(3) by simp
    show "filter (\<lambda>r. URL r = u) (results st2) = filter (\<lambda>r. URL r = u) (results st)"
      if "\<forall>d \<in> set (c # cs). fst d = u \<longrightarrow> snd d = None" for u
      using that by (rule keep)
  qed
qed

section \<open>The claims\<close>

subsection \<open>Failed fetches in the loop\<close>

text \<open>
  C1, as the code has it. A URL whose fetch failed is not skipped silently and does not
  abort the batch: the loop returns normally having counted every completion, and the URL
  is in \<open>processed_urls\<close>. It yields no record, though: the records of that URL in
  \<open>results\<close> are the ones that were there before the loop. The completions are those
  of distinct URLs, as \<open>urls_to_process\<close> is a set.
\<close>

theorem failed_fetch_skipped:
  assumes "(u, None) \<in> set completions" and "distinct (map fst completions)"
  shows "\<exists>st'. main_loop sort_values BeautifulSoup df st completions = Inr st'
           \<and> u \<in> processed_urls st'
           \<and> filter (\<lambda>r. URL r = u) (results st') = filter (\<lambda>r. URL r = u) (results st)
           \<and> completed st' = completed st + length completions"
proof -
  have only: "\<forall>c \<in> set completions. fst c = u \<longrightarrow> snd c = None"
  proof (intro ballI impI)
    fix c assume c: "c \<in> set completions" "fst c = u"
    have "inj_on fst (set completions)" using assms(2) by (simp add: distinct_map)
    from inj_onD [OF this _ c(1) assms(1)] c(2) have "c = (u, None)" by simp
    then show "snd c = None" by simp
  qed
  from main_loop_ok [of sort_values BeautifulSoup df st completions] obtain st' where
    s: "main_loop sort_values BeautifulSoup df st completions = Inr st'"
       "processed_urls st' = processed_urls st \<union> fst ` set completions"
       "completed st' = completed st + length completions"
       "\<forall>u. (\<forall>c \<in> set completions. fst c = u \<longrightarrow> snd c = None)
            \<longrightarrow> filter (\<lambda>r. URL r = u) (results st') = filter (\<lambda>r. URL r = u) (results st)"
    by (elim exE conjE) (rule that)
  show ?thesis
  proof (intro exI conjI)
    show "main_loop sort_values BeautifulSoup df st completions = Inr st'" by (rule s(1))
    have "u \<in> fst ` set completions" using assms(1) by force
    then show "u \<in> processed_urls st'" using s(2) by simp
    show "filter (\<lambda>r. URL r = u) (results st') = filter (\<lambda>r. URL r = u) (results st)"
      using s(4) only by simp
    show "completed st' = completed st + length completions" by (rule s(3))
  qed
qed

theorem failed_fetch_skipped_witness:
  "(''u'', None) \<in> set [(''u'', None), (''w'', Some ''<title>Best Shoes</title>'')]
     \<and> distinct (map fst [(''u'', None :: string option), (''w'', Some ''<title>Best Shoes</title>'')])
     \<and> (\<exists>st'. main_loop stable_sort_desc no_soup [row_a, row_w] fresh_loop_state
                 [(''u'', None), (''w'', Some ''<title>Best Shoes</title>'')] = Inr st'
           \<and> ''u'' \<in> processed_urls st'
           \<and> filter (\<lambda>r. URL r = ''u'') (results st') = []
           \<and> completed st' = 2)"
proof -
  let ?cs = "[(''u'', None), (''w'', Some ''<title>Best Shoes</title>'')]"
  have h1: "(''u'', None) \<in> set ?cs" by simp
  have h2: "distinct (map fst ?cs)" by simp
  from failed_fetch_skipped [OF h1 h2, of stable_sort_desc no_soup "[row_a, row_w]" fresh_loop_state]
  obtain st' where
    s: "main_loop stable_sort_desc no_soup [row_a, row_w] fresh_loop_state ?cs = Inr st'"
       "''u'' \<in> processed_urls st'"
       "filter (\<lambda>r. URL r = ''u'') (results st')
          = filter (\<lambda>r. URL r = ''u'') (results fresh_loop_state)"
       "completed st' = completed fresh_loop_state + length ?cs"
    by (elim exE conjE) (rule that)
  have "\<exists>st'. main_loop stable_sort_desc no_soup [row_a, row_w] fresh_loop_state ?cs = Inr st'
           \<and> ''u'' \<in> processed_urls st'
           \<and> filter (\<lambda>r. URL r = ''u'') (results st') = []
           \<and> completed st' = 2"
  proof (intro exI conjI)
    show "main_loop stable_sort_desc no_soup [row_a, row_w] fresh_loop_state ?cs = Inr st'"
      by (rule s(1))
    show "''u'' \<in> processed_urls st'" by (rule s(2))
    show "filter (\<lambda>r. URL r = ''u'') (results st') = []"
      using s(3) by (simp add: fresh_loop_state_def)
    show "completed st' = 2" using s(4) by (simp add: fresh_loop_state_def)
  qed
  with h1 h2 show ?thesis by (intro conjI)
qed

text \<open>
  The specification asks for one all-false record per selected query of the failed URL.
  Here the group of \<open>u\<close> selects one query, the fetch of \<open>u\<close> fails, and the loop
  ends with no record at all; line 145 guards the whole block.
\<close>

theorem failed_fetch_no_records:
  "length (select_top_queries stable_sort_desc (filter (\<lambda>r. Landing_Page r = ''u'') [row_a])) = 1
     \<and> main_loop stable_sort_desc no_soup [row_a] fresh_loop_state [(''u'', None)]
         = Inr \<lparr>results = [], processed_urls = {''u''}, completed = 1, parse_store = None\<rparr>"
  by (simp add: process_completion_def fresh_loop_state_def select_top_queries_def
      top_by_impressions_def top_by_clicks_def remaining_queries_def stable_sort_desc_def
      row_a_def)

subsection \<open>Which rows remain for the second tier\<close>

text \<open>
  C3, as the code has it. Line 89 excludes by the value of \<open>Query\<close>: a row is a
  candidate for the by-impressions tier exactly when it is in the group and its query
  text differs from the query text of every by-clicks row. A second row with the text of
  a selected row is therefore removed with it.
\<close>

theorem exclusion_by_query_text:
  "r \<in> set (remaining_queries (top_by_clicks sort_values grp) grp)
     \<longleftrightarrow> r \<in> set grp \<and> (\<forall>t \<in> set (top_by_clicks sort_values grp). Query t \<noteq> Query r)"
  unfolding remaining_queries_def set_filter set_map image_iff mem_Collect_eq
  by metis

theorem exclusion_by_query_text_witness:
  "row_c \<notin> set (remaining_queries (top_by_clicks stable_sort_desc [row_a, row_c, row_d])
                  [row_a, row_c, row_d])
     \<and> row_d \<in> set (remaining_queries (top_by_clicks stable_sort_desc [row_a, row_c, row_d])
                  [row_a, row_c, row_d])"
proof -
  have q: "Query row_a = Query row_c" "Query row_a \<noteq> Query row_d"
    by (simp_all add: row_a_def row_c_def row_d_def)
  show ?thesis
    using exclusion_by_query_text [of row_c stable_sort_desc "[row_a, row_c, row_d]"]
      exclusion_by_query_text [of row_d stable_sort_desc "[row_a, row_c, row_d]"] q
    by (simp add: top_by_clicks_a_c)
qed

text \<open>
  Two different rows with the same query text: the first has clicks and is selected, the
  second has none and would lead the by-impressions tier, yet it is not a candidate and
  the selection is the first row alone.
\<close>

theorem same_query_row_excluded:
  "row_a \<in> set (top_by_clicks stable_sort_desc [row_a, row_c])
     \<and> row_c \<noteq> row_a \<and> Query row_c = Query row_a \<and> row_c \<in> set [row_a, row_c]
     \<and> row_c \<notin> set (remaining_queries (top_by_clicks stable_sort_desc [row_a, row_c])
                      [row_a, row_c])
     \<and> select_top_queries stable_sort_desc [row_a, row_c] = [row_a]"
  by (simp add: select_top_queries_def top_by_impressions_def top_by_clicks_def
      remaining_queries_def stable_sort_desc_def row_a_def row_c_def)

subsection \<open>What the fetcher caches\<close>

text \<open>
  C4, as the code has it. The function catches the failure and returns \<open>None\<close>, and the
  decorator stores what the function returns. After a fetch that went to the network and
  failed, the store holds the failure under the key of the call, and a later call within
  the hour returns that failure, whatever the network would answer then, without a
  request: the state, request log included, is unchanged.
\<close>

theorem failed_fetch_cached:
  assumes "cache_lookup 3600 st (url, timeout) now = None"
    and "fetch_html_content_body requests_get url timeout = None"
    and "later < now + 3600"
  shows "\<exists>st'. fetch_html_content requests_get st now url timeout = (None, st')
           \<and> cache st' (url, timeout) = Some (None, now)
           \<and> network_calls st' = network_calls st @ [(url, timeout)]
           \<and> fetch_html_content requests_get' st' later url timeout = (None, st')"
proof -
  let ?st' = "st\<lparr>cache := (cache st)((url, timeout) \<mapsto> (None, now)),
                  network_calls := network_calls st @ [(url, timeout)]\<rparr>"
  have hit: "cache_lookup 3600 ?st' (url, timeout) later = Some None"
    using assms(3) by (simp add: cache_lookup_def)
  show ?thesis
  proof (intro exI conjI)
    show "fetch_html_content requests_get st now url timeout = (None, ?st')"
      using assms(1,2) by (simp add: fetch_html_content_def)
    show "cache ?st' (url, timeout) = Some (None, now)" by simp
    show "network_calls ?st' = network_calls st @ [(url, timeout)]" by simp
    show "fetch_html_content requests_get' ?st' later url timeout = (None, ?st')"
      unfolding fetch_html_content_def hit by simp
  qed
qed

theorem failed_fetch_cached_witness:
  "cache_lookup 3600 fresh_fetch_state (''u'', 10) 0 = None
     \<and> fetch_html_content_body refusing ''u'' 10 = None
     \<and> (60::nat) < 0 + 3600
     \<and> (\<exists>st'. fetch_html_content refusing fresh_fetch_state 0 ''u'' 10 = (None, st')
           \<and> cache st' (''u'', 10) = Some (None, 0)
           \<and> network_calls st' = network_calls fresh_fetch_state @ [(''u'', 10)]
           \<and> fetch_html_content answering st' 60 ''u'' 10 = (None, st'))"
proof -
  have h1: "cache_lookup 3600 fresh_fetch_state (''u'', 10) 0 = None"
    by (simp add: cache_lookup_def fresh_fetch_state_def)
  have h2: "fetch_html_content_body refusing ''u'' 10 = None"
    by (simp add: fetch_html_content_body_def refusing_def)
  have h3: "(60::nat) < 0 + 3600" by simp
  from failed_fetch_cached [OF h1 h2 h3, of answering] h1 h2 h3 show ?thesis
    by (intro conjI)
qed

text \<open>
  The specification has failures left out of the cache. Here the request for \<open>u\<close> is
  refused at time 0; the store then has an entry for \<open>u\<close>, and at time 60 a network that
  would answer is not asked: the call returns the stored failure.
\<close>

theorem failure_is_cached:
  "fst (fetch_html_content refusing fresh_fetch_state 0 ''u'' 10) = None
     \<and> cache after_refusal (''u'', 10) = Some (None, 0)
     \<and> fetch_html_content_body answering ''u'' 10 = Some ''<title>Best Shoes</title>''
     \<and> fetch_html_content answering after_refusal 60 ''u'' 10 = (None, after_refusal)"
proof -
  have a: "after_refusal
             = \<lparr>cache = [(''u'', 10) \<mapsto> (None, 0)], network_calls = [(''u'', 10)]\<rparr>"
    by (simp only: after_refusal_def after_refusal_eq snd_conv)
  have "fst (fetch_html_content refusing fresh_fetch_state 0 ''u'' 10) = None"
    by (simp only: after_refusal_eq fst_conv)
  moreover have "cache after_refusal (''u'', 10) = Some (None, 0)"
    by (simp add: a)
  moreover have "fetch_html_content_body answering ''u'' 10 = Some ''<title>Best Shoes</title>''"
    by (simp add: fetch_html_content_body_def answering_def raise_for_status_def)
  moreover have "fetch_html_content answering after_refusal 60 ''u'' 10 = (None, after_refusal)"
    by (simp add: a fetch_html_content_def cache_lookup_def)
  ultimately show ?thesis by (intro conjI)
qed

subsection \<open>Headings\<close>

text \<open>
  C5. The matcher never raises. Its \<open>H1\<close> field holds exactly when the lowercased query
  occurs in some lowercased element of the H1 sequence; \<open>H2-1\<close> and \<open>H2-2\<close> hold exactly
  when the H2 sequence has an element at index 0, respectively 1, and the lowercased query
  occurs in that element lowercased; likewise \<open>H3-1\<close> and \<open>H3-2\<close> on the H3 sequence.
  By \<open>str_in_iff\<close>, occurrence is containment as a contiguous run.
\<close>

theorem heading_presence_by_index:
  "\<exists>v. check_query_presence P Q = Inr v
     \<and> H1 v = (\<exists>h \<in> set (headings (h1 P)). str_in (lower Q) (lower h))
     \<and> H2_1 v = (0 < length (headings (h2 P)) \<and> str_in (lower Q) (lower (headings (h2 P) ! 0)))
     \<and> H2_2 v = (1 < length (headings (h2 P)) \<and> str_in (lower Q) (lower (headings (h2 P) ! 1)))
     \<and> H3_1 v = (0 < length (headings (h3 P)) \<and> str_in (lower Q) (lower (headings (h3 P) ! 0)))
     \<and> H3_2 v = (1 < length (headings (h3 P)) \<and> str_in (lower Q) (lower (headings (h3 P) ! 1)))"
  by (simp add: cqp_total)

theorem heading_presence_by_index_witness:
  "\<exists>v. check_query_presence shoes_page ''Shoes'' = Inr v
     \<and> \<not> H1 v \<and> H2_1 v \<and> \<not> H2_2 v \<and> \<not> H3_1 v \<and> \<not> H3_2 v"
proof -
  have e: "str_in (lower ''Shoes'') (lower ''Running Shoes'')"
          "\<not> str_in (lower ''Shoes'') (lower ''Shoe Care'')"
    by code_simp+
  from heading_presence_by_index [of shoes_page "''Shoes''"] obtain v where
    v: "check_query_presence shoes_page ''Shoes'' = Inr v"
       "H1 v = (\<exists>h \<in> set (headings (h1 shoes_page)). str_in (lower ''Shoes'') (lower h))"
       "H2_1 v = (0 < length (headings (h2 shoes_page))
          \<and> str_in (lower ''Shoes'') (lower (headings (h2 shoes_page) ! 0)))"
       "H2_2 v = (1 < length (headings (h2 shoes_page))
          \<and> str_in (lower ''Shoes'') (lower (headings (h2 shoes_page) ! 1)))"
       "H3_1 v = (0 < length (headings (h3 shoes_page))
          \<and> str_in (lower ''Shoes'') (lower (headings (h3 shoes_page) ! 0)))"
       "H3_2 v = (1 < length (headings (h3 shoes_page))
          \<and> str_in (lower ''Shoes'') (lower (headings (h3 shoes_page) ! 1)))"
    by (elim exE conjE) (rule that)
  have hs: "headings (h1 shoes_page) = []" "headings (h3 shoes_page) = []"
           "headings (h2 shoes_page) = [''Running Shoes'', ''Shoe Care'']"
    by (simp_all add: shoes_page_def headings_def dict_get_def)
  show ?thesis
  proof (intro exI conjI)
    show "check_query_presence shoes_page ''Shoes'' = Inr v" by (rule v(1))
    show "\<not> H1 v" using v(2) by (simp add: hs)
    show "H2_1 v" using v(3) e(1) by (simp add: hs)
    show "\<not> H2_2 v" using v(4) e(2) by (simp add: hs)
    show "\<not> H3_1 v" using v(5) by (simp add: hs)
    show "\<not> H3_2 v" using v(6) by (simp add: hs)
  qed
qed

subsection \<open>The size of the selection\<close>

text \<open>
  C6. With any sort that keeps the promise of \<open>sort_values\<close>, the selection has at most
  ten rows, at most as many rows as the group, and no row more often than the group has
  it.
\<close>

theorem select_top_queries_bounds:
  assumes "sorts_descending sort_values"
  shows "length (select_top_queries sort_values grp) \<le> 10
       \<and> length (select_top_queries sort_values grp) \<le> length grp
       \<and> mset (select_top_queries sort_values grp) \<subseteq># mset grp"
proof -
  have m: "mset (select_top_queries sort_values grp) \<subseteq># mset grp"
    using tiers_within_group [OF assms, of grp] by (simp add: select_top_queries_split)
  from size_mset_mono [OF m] have "length (select_top_queries sort_values grp) \<le> length grp"
    by simp
  moreover have "length (select_top_queries sort_values grp) \<le> 10"
    using top_by_impressions_length [of sort_values grp] by (simp add: select_top_queries_split)
  ultimately show ?thesis using m by simp
qed

theorem select_top_queries_bounds_witness:
  "sorts_descending stable_sort_desc
     \<and> length (select_top_queries stable_sort_desc [row_a, row_b, row_c]) \<le> 10
     \<and> length (select_top_queries stable_sort_desc [row_a, row_b, row_c])
          \<le> length [row_a, row_b, row_c]
     \<and> mset (select_top_queries stable_sort_desc [row_a, row_b, row_c])
          \<subseteq># mset [row_a, row_b, row_c]"
  using stable_sort_desc_sorts
    select_top_queries_bounds [OF stable_sort_desc_sorts, of "[row_a, row_b, row_c]"]
  by (rule conjI)

subsection \<open>Parsing empty input\<close>

text \<open>
  C7, as the code has it. On empty input the body of the parser, and the decorated parser
  on its first call, return the empty dictionary and raise nothing. None of the six keys
  is in it. The matcher reads each of them through a default, as the empty string or the
  empty sequence, and returns normally.
\<close>

theorem parse_html_empty_input:
  "parse_html_body BeautifulSoup [] = empty_dict
     \<and> parse_html BeautifulSoup None [] = (empty_dict, Some empty_dict)
     \<and> title empty_dict = None \<and> meta empty_dict = None \<and> h1 empty_dict = None
     \<and> h2 empty_dict = None \<and> h3 empty_dict = None \<and> body empty_dict = None
     \<and> dict_get (title empty_dict) [] = [] \<and> dict_get (meta empty_dict) [] = []
     \<and> dict_get (body empty_dict) [] = []
     \<and> headings (h1 empty_dict) = [] \<and> headings (h2 empty_dict) = []
     \<and> headings (h3 empty_dict) = []
     \<and> (\<exists>v. check_query_presence empty_dict Q = Inr v)"
  by (simp add: parse_html_def parse_html_body_def empty_dict_def dict_get_def headings_def
      check_query_presence_returns Let_def)

theorem parse_html_empty_input_witness:
  "parse_html_body no_soup [] = empty_dict
     \<and> parse_html no_soup None [] = (empty_dict, Some empty_dict)
     \<and> title empty_dict = None \<and> meta empty_dict = None \<and> h1 empty_dict = None
     \<and> h2 empty_dict = None \<and> h3 empty_dict = None \<and> body empty_dict = None
     \<and> dict_get (title empty_dict) [] = [] \<and> dict_get (meta empty_dict) [] = []
     \<and> dict_get (body empty_dict) [] = []
     \<and> headings (h1 empty_dict) = [] \<and> headings (h2 empty_dict) = []
     \<and> headings (h3 empty_dict) = []
     \<and> (\<exists>v. check_query_presence empty_dict ''shoes'' = Inr v)"
  by (rule parse_html_empty_input [of no_soup "''shoes''"])

text \<open>
  The specification has all six fields present with empty values. In the dictionary
  returned for empty input every one of the six keys is absent.
\<close>

theorem empty_input_fields_absent:
  "title (fst (parse_html no_soup None [])) = None
     \<and> meta (fst (parse_html no_soup None [])) = None
     \<and> h1 (fst (parse_html no_soup None [])) = None
     \<and> h2 (fst (parse_html no_soup None [])) = None
     \<and> h3 (fst (parse_html no_soup None [])) = None
     \<and> body (fst (parse_html no_soup None [])) = None"
  by (simp add: parse_html_def parse_html_body_def empty_dict_def Let_def)

subsection \<open>Letter case of the query\<close>



subsection \<open>No branded terms\<close>

text \<open>
  C9. With the empty list of branded terms, \<open>process_data\<close> returns a non-empty frame
  as it is, rows and order unchanged.
\<close>

theorem no_branded_terms_identity:
  "df \<noteq> [] \<Longrightarrow> process_data re_search df [] = df"
  by (simp add: process_data_def)

theorem no_branded_terms_identity_witness:
  "[row_a, row_b] \<noteq> [] \<and> process_data (\<lambda>p s. True) [row_a, row_b] [] = [row_a, row_b]"
proof -
  have h: "[row_a, row_b] \<noteq> []" by simp
  from h no_branded_terms_identity [OF h, of "\<lambda>p s. True"] show ?thesis by (rule conjI)
qed

subsection \<open>The empty query\<close>

text \<open>
  C10. For the empty query the matcher returns \<open>Title\<close>, \<open>Meta\<close> and \<open>Body\<close> true
  on every parsed content; \<open>H1\<close> is true exactly when the H1 sequence is not empty, and
  each of \<open>H2-1\<close>, \<open>H2-2\<close>, \<open>H3-1\<close>, \<open>H3-2\<close> exactly when its index exists in
  its sequence. The vector is never all false.
\<close>

theorem empty_query_presence:
  "\<exists>v. check_query_presence P [] = Inr v
     \<and> Title v \<and> Meta v \<and> Body v
     \<and> H1 v = (headings (h1 P) \<noteq> [])
     \<and> H2_1 v = (0 < length (headings (h2 P)))
     \<and> H2_2 v = (1 < length (headings (h2 P)))
     \<and> H3_1 v = (0 < length (headings (h3 P)))
     \<and> H3_2 v = (1 < length (headings (h3 P)))"
  by (simp add: cqp_total lower_Nil str_in_empty ex_in_set)

theorem empty_query_presence_witness:
  "\<exists>v. check_query_presence shoes_page [] = Inr v
     \<and> Title v \<and> Meta v \<and> Body v \<and> \<not> H1 v \<and> H2_1 v \<and> H2_2 v \<and> \<not> H3_1 v \<and> \<not> H3_2 v"
proof -
  from empty_query_presence [of shoes_page] obtain v where
    v: "check_query_presence shoes_page [] = Inr v" "Title v" "Meta v" "Body v"
       "H1 v = (headings (h1 shoes_page) \<noteq> [])"
       "H2_1 v = (0 < length (headings (h2 shoes_page)))"
       "H2_2 v = (1 < length (headings (h2 shoes_page)))"
       "H3_1 v = (0 < length (headings (h3 shoes_page)))"
       "H3_2 v = (1 < length (headings (h3 shoes_page)))"
    by (elim exE conjE) (rule that)
  have hs: "headings (h1 shoes_page) = []" "headings (h3 shoes_page) = []"
           "headings (h2 shoes_page) = [''Running Shoes'', ''Shoe Care'']"
    by (simp_all add: shoes_page_def headings_def dict_get_def)
  show ?thesis
  proof (intro exI conjI)
    show "check_query_presence shoes_page [] = Inr v" by (rule v(1))
    show "Title v" "Meta v" "Body v" by (rule v)+
    show "\<not> H1 v" using v(5) by (simp add: hs)
    show "H2_1 v" using v(6) by (simp add: hs)
    show "H2_2 v" using v(7) by (simp add: hs)
    show "\<not> H3_1 v" using v(8) by (simp add: hs)
    show "\<not> H3_2 v" using v(9) by (simp add: hs)
  qed
qed

end
